theory Spec2Isabelle
  imports Main "HOL-Library.Multiset"
begin

section \<open>The parsed document\<close>

text \<open>
  An ElementTree element, as far as \<^verbatim>\<open>drugBankParser.py\<close> looks at it: its tag (with the
  namespace in braces in front, as ElementTree writes it), its text, which is \<^verbatim>\<open>None\<close> for
  an element without character data, and its child elements in document order.
\<close>

datatype element =
  Element (el_tag: string) (el_text: "string option") (el_children: "element list")

text \<open>\<^verbatim>\<open>e.find(path)\<close> for a path that is one plain tag: the first child with this tag,
  \<^verbatim>\<open>None\<close> when there is none.\<close>

definition findE :: "string \<Rightarrow> element \<Rightarrow> element option" where
  "findE path e = List.find (\<lambda>c. el_tag c = path) (el_children e)"

text \<open>\<^verbatim>\<open>e.findall(path)\<close>: every child with this tag, in document order.\<close>

definition findall :: "string \<Rightarrow> element \<Rightarrow> element list" where
  "findall path e = filter (\<lambda>c. el_tag c = path) (el_children e)"

definition NAME :: string where
  "NAME = ''{http://www.drugbank.ca}name''"

definition PRODUCTS :: string where
  "PRODUCTS = ''{http://www.drugbank.ca}products''"

definition PRODUCT :: string where
  "PRODUCT = ''{http://www.drugbank.ca}product''"


section \<open>Strings\<close>

text \<open>
  Text is a list of code points below 256. On these \<^verbatim>\<open>str.lower()\<close> works character by
  character: the letters A to Z (65 to 90) and the capital letters of the upper half
  (192 to 222 without the multiplication sign 215) move up by 32, which is setting bit 5;
  every other character stays.
\<close>

definition lower_char :: "char \<Rightarrow> char" where
  "lower_char c = (let n = (of_char c :: nat) in
     if (65 \<le> n \<and> n \<le> 90) \<or> (192 \<le> n \<and> n \<le> 222 \<and> n \<noteq> 215)
     then Char (digit0 c) (digit1 c) (digit2 c) (digit3 c) (digit4 c) True (digit6 c) (digit7 c)
     else c)"

definition lower :: "string \<Rightarrow> string" where
  "lower s = map lower_char s"


section \<open>Exceptions and attribute access\<close>

datatype exn = AttributeError | KeyError | SystemExit

text \<open>\<^verbatim>\<open>x.text\<close> where \<^verbatim>\<open>x\<close> is the result of a \<^verbatim>\<open>find\<close>: \<^verbatim>\<open>None\<close> has no attributes.\<close>

fun get_text :: "element option \<Rightarrow> exn + string option" where
  "get_text None = Inl AttributeError"
| "get_text (Some e) = Inr (el_text e)"

text \<open>\<^verbatim>\<open>t.lower()\<close> where \<^verbatim>\<open>t\<close> is the text of an element.\<close>

fun call_lower :: "string option \<Rightarrow> exn + string" where
  "call_lower None = Inl AttributeError"
| "call_lower (Some s) = Inr (lower s)"

text \<open>\<^verbatim>\<open>x.findall(path)\<close> where \<^verbatim>\<open>x\<close> is the result of a \<^verbatim>\<open>find\<close>.\<close>

fun call_findall :: "element option \<Rightarrow> string \<Rightarrow> exn + element list" where
  "call_findall None path = Inl AttributeError"
| "call_findall (Some e) path = Inr (findall path e)"


section \<open>parseDrug\<close>

text \<open>
  The set \<^verbatim>\<open>drugBrandNames\<close> is kept as the list of its elements without repetition, in
  the order they came in; \<^verbatim>\<open>add\<close> leaves the set alone when the element is in it.
\<close>

definition set_add :: "string \<Rightarrow> string list \<Rightarrow> string list" where
  "set_add b s = (if b \<in> set s then s else s @ [b])"

record drugDataRep =
  generic_name :: string
  brand_names :: "string list"

text \<open>The body of the first \<^verbatim>\<open>try\<close>: \<^verbatim>\<open>drugData.find(name).text.lower()\<close>.\<close>

definition generic_try :: "element \<Rightarrow> exn + string" where
  "generic_try drugData =
     (case get_text (findE NAME drugData) of
        Inl e \<Rightarrow> Inl e
      | Inr t \<Rightarrow> call_lower t)"

text \<open>The \<^verbatim>\<open>for product in ...\<close> loop, with the set built so far.\<close>

fun brand_loop :: "element list \<Rightarrow> string list \<Rightarrow> exn + string list" where
  "brand_loop [] drugBrandNames = Inr drugBrandNames"
| "brand_loop (product # rest) drugBrandNames =
     (case get_text (findE NAME product) of
        Inl e \<Rightarrow> Inl e
      | Inr t \<Rightarrow>
          (case call_lower t of
             Inl e \<Rightarrow> Inl e
           | Inr brandName \<Rightarrow> brand_loop rest (set_add brandName drugBrandNames)))"

text \<open>The body of the second \<^verbatim>\<open>try\<close>.\<close>

definition brand_try :: "element \<Rightarrow> exn + string list" where
  "brand_try drugData =
     (case call_findall (findE PRODUCTS drugData) PRODUCT of
        Inl e \<Rightarrow> Inl e
      | Inr ps \<Rightarrow> brand_loop ps [])"

definition GENERIC_ERR :: string where
  "GENERIC_ERR = ''Error: could not retrieve generic name data of drug''"

definition BRAND_ERR :: string where
  "BRAND_ERR = ''Error: could not retrieve brand name data of drug''"

text \<open>
  \<^verbatim>\<open>parseDrug\<close> with the lines printed so far passed through. The first handler is a bare
  \<^verbatim>\<open>except:\<close> and takes every exception; the second is \<^verbatim>\<open>except KeyError:\<close> and lets every
  other exception leave the function. \<^verbatim>\<open>exit()\<close> raises \<^verbatim>\<open>SystemExit\<close>.
\<close>

definition parseDrug :: "element \<Rightarrow> string list \<Rightarrow> (exn + drugDataRep) \<times> string list" where
  "parseDrug drugData printed =
     (case generic_try drugData of
        Inl e \<Rightarrow> (Inl SystemExit, printed @ [GENERIC_ERR])
      | Inr drugGenericName \<Rightarrow>
          (case brand_try drugData of
             Inl e \<Rightarrow>
               (if e = KeyError then (Inl SystemExit, printed @ [BRAND_ERR])
                else (Inl e, printed))
           | Inr drugBrandNames \<Rightarrow>
               (Inr \<lparr>generic_name = drugGenericName, brand_names = drugBrandNames\<rparr>,
                printed)))"


section \<open>parseFile and main\<close>

text \<open>What the run has printed, line by line, and the records the csv writer was given,
  each the list of its cells.\<close>

record world =
  stdout :: "string list"
  out :: "string list list"

definition FIELD_NAMES :: "string list" where
  "FIELD_NAMES = [''brand_name'', ''generic_name'']"

text \<open>\<^verbatim>\<open>DictWriter.writerow\<close> with the field names of \<^verbatim>\<open>main\<close>: the cells are the values of
  the row in the order of the field names, the empty string for a key the row lacks.\<close>

definition writerow :: "(string \<times> string) list \<Rightarrow> string list list \<Rightarrow> string list list" where
  "writerow row sink =
     sink @ [map (\<lambda>k. case map_of row k of None \<Rightarrow> [] | Some v \<Rightarrow> v) FIELD_NAMES]"

text \<open>The inner loop over the brand names, already put in the order the set gives them.\<close>

fun write_rows :: "string list \<Rightarrow> string \<Rightarrow> string list list \<Rightarrow> string list list" where
  "write_rows [] g sink = sink"
| "write_rows (brandName # rest) g sink =
     write_rows rest g (writerow [(''brand_name'', brandName), (''generic_name'', g)] sink)"

text \<open>
  The loop \<^verbatim>\<open>for drug in root\<close>. Python does not fix the order in which a set is gone
  through, so the order is the parameter \<open>iter\<close>, from the elements of the set to the
  sequence the loop sees. The result is the exception that ended the loop, if any, and
  the world it left.
\<close>

fun drug_loop ::
  "(string list \<Rightarrow> string list) \<Rightarrow> element list \<Rightarrow> world \<Rightarrow> exn option \<times> world" where
  "drug_loop iter [] w = (None, w)"
| "drug_loop iter (drug # rest) w =
     (case parseDrug drug (stdout w) of
        (Inl e, printed) \<Rightarrow> (Some e, w\<lparr>stdout := printed\<rparr>)
      | (Inr drugMapping, printed) \<Rightarrow>
          drug_loop iter rest
            \<lparr>stdout = printed,
             out = write_rows (iter (brand_names drugMapping)) (generic_name drugMapping) (out w)\<rparr>)"

definition READ_ERR :: "string \<Rightarrow> string" where
  "READ_ERR inputFile = ''Error: could not read in data from file '' @ inputFile"

text \<open>
  \<^verbatim>\<open>parseFile\<close>. \<open>ET_parse\<close> stands for \<^verbatim>\<open>ET.parse\<close> followed by \<^verbatim>\<open>getroot\<close> on the files of
  the machine: the root element, or \<^verbatim>\<open>None\<close> when \<^verbatim>\<open>ET.parse\<close> raises (no such file, not
  well-formed, wrong encoding).
\<close>

definition parseFile ::
  "(string \<Rightarrow> element option) \<Rightarrow> (string list \<Rightarrow> string list) \<Rightarrow> string \<Rightarrow> world
     \<Rightarrow> exn option \<times> world" where
  "parseFile ET_parse iter inputFile w =
     (case ET_parse inputFile of
        None \<Rightarrow> (Some SystemExit, w\<lparr>stdout := stdout w @ [READ_ERR inputFile]\<rparr>)
      | Some root \<Rightarrow> drug_loop iter (el_children root) w)"

definition DATA_FILE :: string where
  "DATA_FILE = ''rawData.xml''"

text \<open>\<^verbatim>\<open>main\<close>: the output file is opened for writing, which empties it, the header is
  written, then the input file is parsed.\<close>

definition main ::
  "(string \<Rightarrow> element option) \<Rightarrow> (string list \<Rightarrow> string list) \<Rightarrow> exn option \<times> world" where
  "main ET_parse iter = parseFile ET_parse iter DATA_FILE \<lparr>stdout = [], out = [FIELD_NAMES]\<rparr>"


section \<open>Notions the properties are stated with\<close>

text \<open>The text of the name field of a record or of a product, if it can be read.\<close>

definition name_text :: "element \<Rightarrow> string option" where
  "name_text e = (case findE NAME e of None \<Rightarrow> None | Some c \<Rightarrow> el_text c)"

text \<open>An order of going through a set shows every element once.\<close>

definition set_order :: "(string list \<Rightarrow> string list) \<Rightarrow> bool" where
  "set_order iter = (\<forall>s. mset (iter s) = mset s)"

text \<open>The brand names of a products container whose products all have a readable name:
  the lowercased names, each once, in the order of their first product.\<close>

definition brands_of :: "element \<Rightarrow> string list" where
  "brands_of c = fold set_add (map (\<lambda>p. lower (the (name_text p))) (findall PRODUCT c)) []"

text \<open>The rows of one record, in the order its brand names came in; none when
  \<^verbatim>\<open>parseDrug\<close> does not return.\<close>

definition drug_rows :: "element \<Rightarrow> string list list" where
  "drug_rows d =
     (case fst (parseDrug d []) of
        Inl e \<Rightarrow> []
      | Inr m \<Rightarrow> map (\<lambda>b. [b, generic_name m]) (brand_names m))"

text \<open>The records of the input file: the children of the root, none when the file cannot
  be parsed.\<close>

definition records :: "(string \<Rightarrow> element option) \<Rightarrow> string \<Rightarrow> element list" where
  "records ET_parse inputFile =
     (case ET_parse inputFile of None \<Rightarrow> [] | Some root \<Rightarrow> el_children root)"


section \<open>Sample documents\<close>

definition name_el :: "string \<Rightarrow> element" where
  "name_el t = Element NAME (Some t) []"

definition product_el :: "element list \<Rightarrow> element" where
  "product_el cs = Element PRODUCT None cs"

definition products_el :: "element list \<Rightarrow> element" where
  "products_el ps = Element PRODUCTS None ps"

definition drug_el :: "element list \<Rightarrow> element" where
  "drug_el cs = Element ''{http://www.drugbank.ca}drug'' None cs"

definition drugbank_el :: "element list \<Rightarrow> element" where
  "drugbank_el ds = Element ''{http://www.drugbank.ca}drugbank'' None ds"

text \<open>Aspirin with the products Bayer and bayer.\<close>

definition aspirin :: element where
  "aspirin = drug_el [name_el ''Aspirin'',
     products_el [product_el [name_el ''Bayer''], product_el [name_el ''bayer'']]]"

text \<open>Ibuprofen with the products Advil and Motrin.\<close>

definition ibuprofen :: element where
  "ibuprofen = drug_el [name_el ''Ibuprofen'',
     products_el [product_el [name_el ''Advil''], product_el [name_el ''Motrin'']]]"

text \<open>A record with a name and no products container.\<close>

definition bare_aspirin :: element where
  "bare_aspirin = drug_el [name_el ''Aspirin'']"

text \<open>A record with a name and a products container without products.\<close>

definition empty_aspirin :: element where
  "empty_aspirin = drug_el [name_el ''Aspirin'', products_el []]"

text \<open>A record whose second product has no name field.\<close>

definition nameless_product :: element where
  "nameless_product = drug_el [name_el ''Aspirin'',
     products_el [product_el [name_el ''Bayer''], product_el []]]"

text \<open>A record without a name field.\<close>

definition nameless_drug :: element where
  "nameless_drug = drug_el [products_el [product_el [name_el ''Bayer'']]]"

lemmas sample_defs =
  name_el_def product_el_def products_el_def drug_el_def drugbank_el_def
  aspirin_def ibuprofen_def bare_aspirin_def empty_aspirin_def nameless_product_def
  nameless_drug_def NAME_def PRODUCTS_def PRODUCT_def findE_def findall_def name_text_def


section \<open>Auxiliary facts\<close>

lemma write_rows_eq: "write_rows bs g sink = sink @ map (\<lambda>b. [b, g]) bs"
  by (induction bs arbitrary: sink) (simp_all add: writerow_def FIELD_NAMES_def)

lemma generic_try_eq:
  "generic_try d = (case name_text d of None \<Rightarrow> Inl AttributeError | Some t \<Rightarrow> Inr (lower t))"
  by (cases "findE NAME d"; cases "name_text d") (auto simp: generic_try_def name_text_def)

lemma brand_loop_eq:
  "brand_loop ps acc =
     (if list_all (\<lambda>p. name_text p \<noteq> None) ps
      then Inr (fold set_add (map (\<lambda>p. lower (the (name_text p))) ps) acc)
      else Inl AttributeError)"
proof (induction ps arbitrary: acc)
  case Nil
  show ?case by simp
next
  case (Cons p ps)
  show ?case
  proof (cases "findE NAME p")
    case None
    then show ?thesis by (simp add: name_text_def)
  next
    case (Some c)
    then show ?thesis
      by (cases "el_text c") (simp_all add: name_text_def Cons.IH)
  qed
qed

lemma set_fold_set_add: "set (fold set_add xs acc) = set xs \<union> set acc"
  by (induction xs arbitrary: acc) (auto simp: set_add_def)

lemma distinct_fold_set_add: "distinct acc \<Longrightarrow> distinct (fold set_add xs acc)"
  by (induction xs arbitrary: acc) (auto simp: set_add_def)

lemma set_brands_of:
  "set (brands_of c) = (\<lambda>p. lower (the (name_text p))) ` set (findall PRODUCT c)"
  by (simp add: brands_of_def set_fold_set_add)

lemma distinct_brands_of: "distinct (brands_of c)"
  by (simp add: brands_of_def distinct_fold_set_add)

text \<open>Every way through \<^verbatim>\<open>parseDrug\<close>, by what the record holds.\<close>

lemma parseDrug_cases:
  "parseDrug d s =
     (case name_text d of
        None \<Rightarrow> (Inl SystemExit, s @ [GENERIC_ERR])
      | Some g \<Rightarrow>
          (case findE PRODUCTS d of
             None \<Rightarrow> (Inl AttributeError, s)
           | Some c \<Rightarrow>
               if list_all (\<lambda>p. name_text p \<noteq> None) (findall PRODUCT c)
               then (Inr \<lparr>generic_name = lower g, brand_names = brands_of c\<rparr>, s)
               else (Inl AttributeError, s)))"
  by (cases "name_text d"; cases "findE PRODUCTS d")
     (simp_all add: parseDrug_def generic_try_eq brand_try_def brand_loop_eq brands_of_def)

lemma drug_loop_append:
  "drug_loop iter (pre @ rest) w =
     (case drug_loop iter pre w of
        (None, w') \<Rightarrow> drug_loop iter rest w'
      | (Some e, w') \<Rightarrow> (Some e, w'))"
proof (induction pre arbitrary: w)
  case Nil
  show ?case by simp
next
  case (Cons d pre)
  show ?case
    by (cases "parseDrug d (stdout w)") (auto simp: Cons.IH split: sum.splits)
qed

lemma set_order_Nil: "set_order iter \<Longrightarrow> iter [] = []"
  by (metis mset_zero_iff set_order_def)

lemma set_order_set: "set_order iter \<Longrightarrow> set (iter s) = set s"
  by (metis set_mset_mset set_order_def)

lemma set_order_distinct: "set_order iter \<Longrightarrow> distinct (iter s) = distinct s"
  by (metis mset_eq_imp_distinct_iff set_order_def)

lemma set_order_length: "set_order iter \<Longrightarrow> length (iter s) = length s"
  by (metis size_mset set_order_def)

lemma set_order_id: "set_order (\<lambda>s. s)"
  by (simp add: set_order_def)

lemma fst_parseDrug: "fst (parseDrug d s) = fst (parseDrug d [])"
  by (simp add: parseDrug_cases split: option.splits)

lemma snd_parseDrug_ok: "parseDrug d s = (Inr m, s') \<Longrightarrow> s' = s"
  by (simp add: parseDrug_cases split: option.splits if_splits)

lemma drug_rows_ok:
  "parseDrug d s = (Inr m, s') \<Longrightarrow> drug_rows d = map (\<lambda>b. [b, generic_name m]) (brand_names m)"
proof -
  assume a: "parseDrug d s = (Inr m, s')"
  have "fst (parseDrug d []) = Inr m"
    using a fst_parseDrug [of d s] by simp
  then show ?thesis by (simp add: drug_rows_def)
qed

lemma drug_loop_step_ok:
  "parseDrug d (stdout w) = (Inr m, s') \<Longrightarrow>
     drug_loop iter (d # rest) w =
       drug_loop iter rest (w\<lparr>out := out w @ map (\<lambda>b. [b, generic_name m]) (iter (brand_names m))\<rparr>)"
  using snd_parseDrug_ok [of d "stdout w" m s'] by (cases w) (simp add: write_rows_eq)

lemma drug_loop_step_err:
  "parseDrug d (stdout w) = (Inl e, s') \<Longrightarrow> drug_loop iter (d # rest) w = (Some e, w\<lparr>stdout := s'\<rparr>)"
  by simp

lemma drug_loop_origin:
  assumes "set_order iter"
    and "row \<in> set (out (snd (drug_loop iter ds w)))"
  shows "row \<in> set (out w) \<or>
     (\<exists>drug \<in> set ds. \<exists>g c p b. name_text drug = Some g \<and> findE PRODUCTS drug = Some c \<and>
        p \<in> set (findall PRODUCT c) \<and> name_text p = Some b \<and> row = [lower b, lower g])"
  using assms(2)
proof (induction ds arbitrary: w)
  case Nil
  then show ?case by simp
next
  case (Cons d ds)
  obtain r s' where p: "parseDrug d (stdout w) = (r, s')"
    by (cases "parseDrug d (stdout w)")
  show ?case
  proof (cases r)
    case (Inl e)
    then show ?thesis using Cons.prems p by simp
  next
    case (Inr m)
    let ?w' = "w\<lparr>out := out w @ map (\<lambda>b. [b, generic_name m]) (iter (brand_names m))\<rparr>"
    have step: "drug_loop iter (d # ds) w = drug_loop iter ds ?w'"
      using p Inr by (intro drug_loop_step_ok [of d _ m s']) simp
    from p Inr obtain g c where g: "name_text d = Some g" and c: "findE PRODUCTS d = Some c"
      and ok: "list_all (\<lambda>p. name_text p \<noteq> None) (findall PRODUCT c)"
      and m: "m = \<lparr>generic_name = lower g, brand_names = brands_of c\<rparr>"
      by (auto simp: parseDrug_cases split: option.splits if_splits)
    from Cons.prems step have "row \<in> set (out (snd (drug_loop iter ds ?w')))" by simp
    from Cons.IH [OF this] have "row \<in> set (out w) \<or>
        row \<in> set (map (\<lambda>b. [b, generic_name m]) (iter (brand_names m))) \<or>
        (\<exists>drug \<in> set ds. \<exists>g c p b. name_text drug = Some g \<and> findE PRODUCTS drug = Some c \<and>
        p \<in> set (findall PRODUCT c) \<and> name_text p = Some b \<and> row = [lower b, lower g])"
      by simp
    then consider
        (old) "row \<in> set (out w)"
      | (new) "row \<in> set (map (\<lambda>b. [b, generic_name m]) (iter (brand_names m)))"
      | (later) "\<exists>drug \<in> set ds. \<exists>g c p b. name_text drug = Some g \<and> findE PRODUCTS drug = Some c \<and>
        p \<in> set (findall PRODUCT c) \<and> name_text p = Some b \<and> row = [lower b, lower g]"
      by blast
    then show ?thesis
    proof cases
      case old
      then show ?thesis by simp
    next
      case new
      then obtain x where x: "x \<in> set (brands_of c)" and row: "row = [x, lower g]"
        using m by (auto simp: set_order_set [OF assms(1)])
      from x obtain p where pin: "p \<in> set (findall PRODUCT c)" and xp: "x = lower (the (name_text p))"
        by (auto simp: set_brands_of)
      from ok pin obtain b where b: "name_text p = Some b"
        by (auto simp: list_all_iff)
      have "name_text d = Some g \<and> findE PRODUCTS d = Some c \<and>
        p \<in> set (findall PRODUCT c) \<and> name_text p = Some b \<and> row = [lower b, lower g]"
        using g c pin b xp row by simp
      then show ?thesis by auto
    next
      case later
      then show ?thesis by auto
    qed
  qed
qed

lemma drug_loop_deterministic:
  assumes "set_order iter1" and "set_order iter2"
  shows "stdout w1 = stdout w2 \<Longrightarrow> mset (out w1) = mset (out w2) \<Longrightarrow>
     fst (drug_loop iter1 ds w1) = fst (drug_loop iter2 ds w2) \<and>
     stdout (snd (drug_loop iter1 ds w1)) = stdout (snd (drug_loop iter2 ds w2)) \<and>
     mset (out (snd (drug_loop iter1 ds w1))) = mset (out (snd (drug_loop iter2 ds w2)))"
proof (induction ds arbitrary: w1 w2)
  case Nil
  then show ?case by simp
next
  case (Cons d ds)
  obtain r s' where p: "parseDrug d (stdout w1) = (r, s')"
    by (cases "parseDrug d (stdout w1)")
  then have p2: "parseDrug d (stdout w2) = (r, s')" using Cons.prems by simp
  show ?case
  proof (cases r)
    case (Inl e)
    then show ?thesis using p p2 Cons.prems by simp
  next
    case (Inr m)
    let ?g = "\<lambda>b. [b, generic_name m]"
    let ?w1 = "w1\<lparr>out := out w1 @ map ?g (iter1 (brand_names m))\<rparr>"
    let ?w2 = "w2\<lparr>out := out w2 @ map ?g (iter2 (brand_names m))\<rparr>"
    have s1: "drug_loop iter1 (d # ds) w1 = drug_loop iter1 ds ?w1"
      using p Inr by (intro drug_loop_step_ok [of d _ m s']) simp
    have s2: "drug_loop iter2 (d # ds) w2 = drug_loop iter2 ds ?w2"
      using p2 Inr by (intro drug_loop_step_ok [of d _ m s']) simp
    have "mset (map ?g (iter1 (brand_names m))) = mset (map ?g (iter2 (brand_names m)))"
      using assms by (simp add: set_order_def)
    then have "mset (out ?w1) = mset (out ?w2)" using Cons.prems by simp
    moreover have "stdout ?w1 = stdout ?w2" using Cons.prems by simp
    ultimately show ?thesis using Cons.IH [of ?w1 ?w2] s1 s2 by simp
  qed
qed

lemma drug_loop_grouped:
  assumes "set_order iter"
  shows "\<exists>groups. length groups \<le> length ds \<and>
     out (snd (drug_loop iter ds w)) = out w @ concat groups \<and>
     list_all2 (\<lambda>grp d. mset grp = mset (drug_rows d)) groups (take (length groups) ds)"
proof (induction ds arbitrary: w)
  case Nil
  show ?case by simp
next
  case (Cons d ds)
  obtain r s' where p: "parseDrug d (stdout w) = (r, s')"
    by (cases "parseDrug d (stdout w)")
  show ?case
  proof (cases r)
    case (Inl e)
    then have "out (snd (drug_loop iter (d # ds) w)) = out w @ concat []" using p by simp
    then show ?thesis by (intro exI [of _ "[]"]) simp
  next
    case (Inr m)
    let ?grp = "map (\<lambda>b. [b, generic_name m]) (iter (brand_names m))"
    let ?w' = "w\<lparr>out := out w @ ?grp\<rparr>"
    have step: "drug_loop iter (d # ds) w = drug_loop iter ds ?w'"
      using p Inr by (intro drug_loop_step_ok [of d _ m s']) simp
    from Cons.IH [of ?w'] obtain groups where len: "length groups \<le> length ds"
      and o: "out (snd (drug_loop iter ds ?w')) = out ?w' @ concat groups"
      and g: "list_all2 (\<lambda>grp d. mset grp = mset (drug_rows d)) groups (take (length groups) ds)"
      by blast
    have "mset ?grp = mset (drug_rows d)"
      using assms drug_rows_ok [of d "stdout w" m s'] p Inr by (simp add: set_order_def)
    then have "length (?grp # groups) \<le> length (d # ds) \<and>
       out (snd (drug_loop iter (d # ds) w)) = out w @ concat (?grp # groups) \<and>
       list_all2 (\<lambda>grp d. mset grp = mset (drug_rows d)) (?grp # groups)
         (take (length (?grp # groups)) (d # ds))"
      using len o g step by simp
    then show ?thesis by blast
  qed
qed

lemmas run_defs = main_def parseFile_def parseDrug_cases brands_of_def set_add_def lower_def
  lower_char_def write_rows_eq DATA_FILE_def

lemma set_order_rev: "set_order rev"
  by (simp add: set_order_def)

lemma drug_loop_stdout:
  "set (stdout (snd (drug_loop iter ds w))) \<subseteq> set (stdout w) \<union> {GENERIC_ERR}"
proof (induction ds arbitrary: w)
  case Nil
  show ?case by auto
next
  case (Cons d ds)
  obtain r s' where p: "parseDrug d (stdout w) = (r, s')"
    by (cases "parseDrug d (stdout w)")
  show ?case
  proof (cases r)
    case (Inl e)
    have "set s' \<subseteq> set (stdout w) \<union> {GENERIC_ERR}"
      using p by (auto simp: parseDrug_cases split: option.splits if_splits)
    then show ?thesis using p Inl by simp
  next
    case (Inr m)
    let ?w' = "w\<lparr>out := out w @ map (\<lambda>b. [b, generic_name m]) (iter (brand_names m))\<rparr>"
    have "drug_loop iter (d # ds) w = drug_loop iter ds ?w'"
      using p Inr by (intro drug_loop_step_ok [of d _ m s']) simp
    then show ?thesis using Cons.IH [of ?w'] by simp
  qed
qed

section \<open>The claims\<close>

text \<open>
  C1, at the record \<open>bare_aspirin\<close>, which has a name and no products container: the run
  stops there with the \<^verbatim>\<open>AttributeError\<close> of \<^verbatim>\<open>None.findall\<close>, which the handler for
  \<^verbatim>\<open>KeyError\<close> does not take. Nothing is printed, so the message of that handler is not,
  and no row is written.
\<close>

theorem C1_absent_container_uncaught:
  "parseFile (\<lambda>f. Some (drugbank_el [bare_aspirin])) (\<lambda>s. s) DATA_FILE
      \<lparr>stdout = [], out = [FIELD_NAMES]\<rparr>
     = (Some AttributeError, \<lparr>stdout = [], out = [FIELD_NAMES]\<rparr>)"
  by (simp add: run_defs sample_defs)

text \<open>
  C2 fails on the record \<open>nameless_product\<close>, whose products container is there and whose
  second product has no name field: \<^verbatim>\<open>parseDrug\<close> returns no mapping, the run stops on
  this record, the row of its first product, Bayer, is not written, and the record after
  it is not looked at.
\<close>

theorem C2_nameless_product_counterexample:
  "fst (parseDrug nameless_product []) = Inl AttributeError \<and>
   main (\<lambda>f. Some (drugbank_el [nameless_product, ibuprofen])) (\<lambda>s. s)
     = (Some AttributeError, \<lparr>stdout = [], out = [FIELD_NAMES]\<rparr>)"
  by (simp add: run_defs sample_defs)

text \<open>
  C2 as amended: when the products container of a record is present and one of its
  products has a name field that is missing or without text, \<^verbatim>\<open>parseDrug\<close> does not return
  a mapping and the run stops on this record: no row is written for it and the records
  after it are not processed.
\<close>

theorem C2_unreadable_product_halts:
  assumes "findE PRODUCTS d = Some c"
    and "p \<in> set (findall PRODUCT c)"
    and "name_text p = None"
  shows "(\<exists>e. fst (parseDrug d printed) = Inl e) \<and>
     (\<exists>e w'. drug_loop iter (d # rest) w = (Some e, w') \<and> out w' = out w)"
proof -
  have bad: "\<not> list_all (\<lambda>p. name_text p \<noteq> None) (findall PRODUCT c)"
    using assms(2,3) by (auto simp: list_all_iff)
  have halt: "\<exists>e s'. parseDrug d s = (Inl e, s')" for s
    using assms(1) bad by (simp add: parseDrug_cases split: option.splits)
  from halt [of printed] have first: "\<exists>e. fst (parseDrug d printed) = Inl e"
    by auto
  from halt [of "stdout w"] obtain e s' where "parseDrug d (stdout w) = (Inl e, s')"
    by blast
  then have "drug_loop iter (d # rest) w = (Some e, w\<lparr>stdout := s'\<rparr>) \<and>
      out (w\<lparr>stdout := s'\<rparr>) = out w"
    by simp
  then have "\<exists>e w'. drug_loop iter (d # rest) w = (Some e, w') \<and> out w' = out w"
    by blast
  with first show ?thesis by simp
qed

text \<open>C2 as amended, on the record \<open>nameless_product\<close> followed by \<open>ibuprofen\<close>.\<close>

theorem C2_unreadable_product_halts_witness:
  "findE PRODUCTS nameless_product
     = Some (products_el [product_el [name_el ''Bayer''], product_el []]) \<and>
   product_el [] \<in> set (findall PRODUCT (products_el [product_el [name_el ''Bayer''], product_el []])) \<and>
   name_text (product_el []) = None \<and>
   (\<exists>e. fst (parseDrug nameless_product []) = Inl e) \<and>
   (\<exists>e w'. drug_loop (\<lambda>s. s) [nameless_product, ibuprofen] \<lparr>stdout = [], out = [FIELD_NAMES]\<rparr>
       = (Some e, w') \<and> out w' = [FIELD_NAMES])"
proof -
  let ?c = "products_el [product_el [name_el ''Bayer''], product_el []]"
  have h1: "findE PRODUCTS nameless_product = Some ?c"
    by (simp add: sample_defs)
  have h2: "product_el [] \<in> set (findall PRODUCT ?c)"
    by (simp add: sample_defs)
  have h3: "name_text (product_el []) = None"
    by (simp add: sample_defs)
  show ?thesis
    using h1 h2 h3
      C2_unreadable_product_halts [OF h1 h2 h3, of "[]" "\<lambda>s. s" "[ibuprofen]"
        "\<lparr>stdout = [], out = [FIELD_NAMES]\<rparr>"]
    by simp
qed

text \<open>
  C3 fails on the record \<open>bare_aspirin\<close>, which has a readable name and no products
  container: the run stops on it, and the rows of the record after it, which the run
  writes when that record stands alone, are not written.
\<close>

theorem C3_absent_container_counterexample:
  "name_text bare_aspirin = Some ''Aspirin'' \<and>
   findall PRODUCT bare_aspirin = [] \<and>
   main (\<lambda>f. Some (drugbank_el [bare_aspirin, ibuprofen])) (\<lambda>s. s)
     = (Some AttributeError, \<lparr>stdout = [], out = [FIELD_NAMES]\<rparr>) \<and>
   main (\<lambda>f. Some (drugbank_el [ibuprofen])) (\<lambda>s. s)
     = (None, \<lparr>stdout = [],
          out = [FIELD_NAMES, [''advil'', ''ibuprofen''], [''motrin'', ''ibuprofen'']]\<rparr>)"
  by (simp add: run_defs sample_defs)

text \<open>
  C3 as amended: a record with a readable name and a products container without product
  children adds no row and the run goes on with the next record; a record with a readable
  name and no products container adds no row either, and the run stops on it.
\<close>

theorem C3_zero_products:
  assumes "set_order iter"
    and "name_text d = Some g"
  shows "(findE PRODUCTS d = Some c \<and> findall PRODUCT c = [] \<longrightarrow>
            drug_loop iter (d # rest) w = drug_loop iter rest w) \<and>
         (findE PRODUCTS d = None \<longrightarrow>
            (\<exists>e w'. drug_loop iter (d # rest) w = (Some e, w') \<and> out w' = out w))"
proof (intro conjI impI)
  assume a: "findE PRODUCTS d = Some c \<and> findall PRODUCT c = []"
  then have "parseDrug d (stdout w) = (Inr \<lparr>generic_name = lower g, brand_names = []\<rparr>, stdout w)"
    using assms(2) by (simp add: parseDrug_cases brands_of_def)
  from drug_loop_step_ok [OF this, of iter rest]
  show "drug_loop iter (d # rest) w = drug_loop iter rest w"
    using set_order_Nil [OF assms(1)] by simp
next
  assume "findE PRODUCTS d = None"
  then have "parseDrug d (stdout w) = (Inl AttributeError, stdout w)"
    using assms(2) by (simp add: parseDrug_cases)
  then have "drug_loop iter (d # rest) w = (Some AttributeError, w\<lparr>stdout := stdout w\<rparr>) \<and>
      out (w\<lparr>stdout := stdout w\<rparr>) = out w"
    by simp
  then show "\<exists>e w'. drug_loop iter (d # rest) w = (Some e, w') \<and> out w' = out w"
    by blast
qed

text \<open>C3 as amended, on the records \<open>empty_aspirin\<close> and \<open>bare_aspirin\<close>, each followed by
  \<open>ibuprofen\<close>.\<close>

theorem C3_zero_products_witness:
  "set_order (\<lambda>s. s) \<and> name_text empty_aspirin = Some ''Aspirin'' \<and>
   findE PRODUCTS empty_aspirin = Some (products_el []) \<and>
   findall PRODUCT (products_el []) = [] \<and>
   drug_loop (\<lambda>s. s) [empty_aspirin, ibuprofen] \<lparr>stdout = [], out = [FIELD_NAMES]\<rparr>
     = drug_loop (\<lambda>s. s) [ibuprofen] \<lparr>stdout = [], out = [FIELD_NAMES]\<rparr> \<and>
   name_text bare_aspirin = Some ''Aspirin'' \<and>
   findE PRODUCTS bare_aspirin = None \<and>
   (\<exists>e w'. drug_loop (\<lambda>s. s) [bare_aspirin, ibuprofen] \<lparr>stdout = [], out = [FIELD_NAMES]\<rparr>
       = (Some e, w') \<and> out w' = [FIELD_NAMES])"
proof -
  have e1: "name_text empty_aspirin = Some ''Aspirin''"
    and e2: "findE PRODUCTS empty_aspirin = Some (products_el [])"
    and e3: "findall PRODUCT (products_el []) = []"
    and b1: "name_text bare_aspirin = Some ''Aspirin''"
    and b2: "findE PRODUCTS bare_aspirin = None"
    by (simp_all add: sample_defs)
  show ?thesis
    using set_order_id e1 e2 e3 b1 b2
      C3_zero_products [OF set_order_id e1, of "products_el []" "[ibuprofen]"
        "\<lparr>stdout = [], out = [FIELD_NAMES]\<rparr>"]
      C3_zero_products [OF set_order_id b1, of "products_el []" "[ibuprofen]"
        "\<lparr>stdout = [], out = [FIELD_NAMES]\<rparr>"]
    by simp
qed

text \<open>
  C4: every row the run adds to the sink is the pair of the lowercased name text of a
  product and the lowercased name text of the record this product belongs to, both texts
  as they stand in the input document, with nothing done to them but \<^verbatim>\<open>lower\<close>.
\<close>

theorem C4_rows_lowercase:
  assumes "set_order iter"
    and "row \<in> set (out (snd (parseFile ET_parse iter inputFile w)))"
    and "row \<notin> set (out w)"
  shows "\<exists>root drug g c p b.
     ET_parse inputFile = Some root \<and> drug \<in> set (el_children root) \<and>
     name_text drug = Some g \<and> findE PRODUCTS drug = Some c \<and>
     p \<in> set (findall PRODUCT c) \<and> name_text p = Some b \<and>
     row = [lower b, lower g]"
proof (cases "ET_parse inputFile")
  case None
  then show ?thesis using assms(2,3) by (simp add: parseFile_def)
next
  case (Some root)
  then have "row \<in> set (out (snd (drug_loop iter (el_children root) w)))"
    using assms(2) by (simp add: parseFile_def)
  from drug_loop_origin [OF assms(1) this] assms(3) Some
  show ?thesis by blast
qed

text \<open>C4 on the record \<open>aspirin\<close>, for the row of its product Bayer.\<close>

theorem C4_rows_lowercase_witness:
  "set_order (\<lambda>s. s) \<and>
   [''bayer'', ''aspirin''] \<in> set (out (snd (parseFile (\<lambda>f. Some (drugbank_el [aspirin]))
       (\<lambda>s. s) DATA_FILE \<lparr>stdout = [], out = [FIELD_NAMES]\<rparr>))) \<and>
   [''bayer'', ''aspirin''] \<notin> set (out \<lparr>stdout = [], out = [FIELD_NAMES]\<rparr>) \<and>
   (\<exists>root drug g c p b.
     (\<lambda>f. Some (drugbank_el [aspirin])) DATA_FILE = Some root \<and> drug \<in> set (el_children root) \<and>
     name_text drug = Some g \<and> findE PRODUCTS drug = Some c \<and>
     p \<in> set (findall PRODUCT c) \<and> name_text p = Some b \<and>
     [''bayer'', ''aspirin''] = [lower b, lower g])"
proof -
  let ?w = "\<lparr>stdout = [], out = [FIELD_NAMES]\<rparr>"
  have h2: "[''bayer'', ''aspirin''] \<in> set (out (snd (parseFile (\<lambda>f. Some (drugbank_el [aspirin]))
       (\<lambda>s. s) DATA_FILE ?w)))"
    by (simp add: run_defs sample_defs)
  have h3: "[''bayer'', ''aspirin''] \<notin> set (out ?w)"
    by (simp add: FIELD_NAMES_def)
  from C4_rows_lowercase [OF set_order_id h2 h3] set_order_id h2 h3
  show ?thesis by blast
qed

text \<open>
  C5 fails on the record \<open>nameless_product\<close>, which has a generic name and two products,
  one with the readable name Bayer and one without a name field: it has one readable
  product name, and the run writes no row for it, in whatever order sets are gone
  through, because it stops on the product without a name.
\<close>

theorem C5_unreadable_product_counterexample:
  "name_text nameless_product = Some ''Aspirin'' \<and>
   findE PRODUCTS nameless_product
     = Some (products_el [product_el [name_el ''Bayer''], product_el []]) \<and>
   map name_text (findall PRODUCT (products_el [product_el [name_el ''Bayer''], product_el []]))
     = [Some ''Bayer'', None] \<and>
   drug_loop (\<lambda>s. s) [nameless_product] \<lparr>stdout = [], out = [FIELD_NAMES]\<rparr>
     = (Some AttributeError, \<lparr>stdout = [], out = [FIELD_NAMES]\<rparr>) \<and>
   drug_loop rev [nameless_product] \<lparr>stdout = [], out = [FIELD_NAMES]\<rparr>
     = (Some AttributeError, \<lparr>stdout = [], out = [FIELD_NAMES]\<rparr>)"
  by (simp add: run_defs sample_defs)

text \<open>
  C5 as amended: for a record with a readable name whose products all have a readable
  name, the run appends to the sink as many rows as these names are distinct after
  lowercasing, no two rows the same, each the pair of one lowercased brand name and the
  lowercased generic name, and goes on with the next record. Products whose names are
  equal after lowercasing so give one row.
\<close>

theorem C5_fan_out:
  assumes "set_order iter"
    and "name_text d = Some g"
    and "findE PRODUCTS d = Some c"
    and "\<forall>p \<in> set (findall PRODUCT c). name_text p \<noteq> None"
  shows "\<exists>rows.
     drug_loop iter (d # rest) w = drug_loop iter rest (w\<lparr>out := out w @ rows\<rparr>) \<and>
     distinct rows \<and>
     set rows = (\<lambda>b. [b, lower g]) ` (\<lambda>p. lower (the (name_text p))) ` set (findall PRODUCT c) \<and>
     length rows = card ((\<lambda>p. lower (the (name_text p))) ` set (findall PRODUCT c))"
proof -
  let ?rows = "map (\<lambda>b. [b, lower g]) (iter (brands_of c))"
  have ok: "list_all (\<lambda>p. name_text p \<noteq> None) (findall PRODUCT c)"
    using assms(4) by (simp add: list_all_iff)
  have "parseDrug d (stdout w) = (Inr \<lparr>generic_name = lower g, brand_names = brands_of c\<rparr>, stdout w)"
    using assms(2,3) ok by (simp add: parseDrug_cases)
  from drug_loop_step_ok [OF this, of iter rest]
  have step: "drug_loop iter (d # rest) w = drug_loop iter rest (w\<lparr>out := out w @ ?rows\<rparr>)"
    by simp
  have di: "distinct (iter (brands_of c))"
    by (simp add: set_order_distinct [OF assms(1)] distinct_brands_of)
  have d: "distinct ?rows"
    using di by (simp add: distinct_map inj_on_def)
  have s: "set ?rows = (\<lambda>b. [b, lower g]) ` (\<lambda>p. lower (the (name_text p))) ` set (findall PRODUCT c)"
    by (simp add: set_order_set [OF assms(1)] set_brands_of)
  have "length ?rows = length (brands_of c)"
    by (simp add: set_order_length [OF assms(1)])
  also have "\<dots> = card (set (brands_of c))"
    by (simp add: distinct_card distinct_brands_of)
  finally have l: "length ?rows = card ((\<lambda>p. lower (the (name_text p))) ` set (findall PRODUCT c))"
    by (simp add: set_brands_of)
  from step d s l show ?thesis by blast
qed

text \<open>C5 as amended, on the record \<open>aspirin\<close>, whose two products Bayer and bayer give one row.\<close>

theorem C5_fan_out_witness:
  "set_order rev \<and> name_text aspirin = Some ''Aspirin'' \<and>
   findE PRODUCTS aspirin
     = Some (products_el [product_el [name_el ''Bayer''], product_el [name_el ''bayer'']]) \<and>
   map name_text (findall PRODUCT (products_el [product_el [name_el ''Bayer''],
       product_el [name_el ''bayer'']])) = [Some ''Bayer'', Some ''bayer''] \<and>
   (\<exists>rows.
     drug_loop rev [aspirin] \<lparr>stdout = [], out = [FIELD_NAMES]\<rparr>
       = (None, \<lparr>stdout = [], out = [FIELD_NAMES] @ rows\<rparr>) \<and>
     distinct rows \<and> set rows = {[''bayer'', ''aspirin'']} \<and> length rows = 1)"
proof -
  let ?c = "products_el [product_el [name_el ''Bayer''], product_el [name_el ''bayer'']]"
  have h2: "name_text aspirin = Some ''Aspirin''"
    and h3: "findE PRODUCTS aspirin = Some ?c"
    and h4: "\<forall>p \<in> set (findall PRODUCT ?c). name_text p \<noteq> None"
    by (simp_all add: sample_defs)
  have img: "(\<lambda>p. lower (the (name_text p))) ` set (findall PRODUCT ?c) = {''bayer''}"
    by (simp add: sample_defs lower_def lower_char_def)
  have low: "lower ''Aspirin'' = ''aspirin''"
    by (simp add: lower_def lower_char_def)
  from C5_fan_out [OF set_order_rev h2 h3 h4, of "[]" "\<lparr>stdout = [], out = [FIELD_NAMES]\<rparr>"]
  have "\<exists>rows.
     drug_loop rev [aspirin] \<lparr>stdout = [], out = [FIELD_NAMES]\<rparr>
       = (None, \<lparr>stdout = [], out = [FIELD_NAMES] @ rows\<rparr>) \<and>
     distinct rows \<and> set rows = {[''bayer'', ''aspirin'']} \<and> length rows = 1"
    unfolding img low by simp
  moreover have "map name_text (findall PRODUCT ?c) = [Some ''Bayer'', Some ''bayer'']"
    by (simp add: sample_defs)
  ultimately show ?thesis using set_order_rev h2 h3 by blast
qed

text \<open>
  C6: when the records before \<open>d\<close> have been processed without a halt and \<open>d\<close> has no
  readable name field, the run prints the diagnostic for the generic name and exits. The
  sink is what the earlier records left: their rows remain, \<open>d\<close> adds none, and the records
  after \<open>d\<close> have no part in the result.
\<close>

theorem C6_missing_generic_name_halts:
  assumes "ET_parse inputFile = Some root"
    and "el_children root = pre @ d # post"
    and "drug_loop iter pre w = (None, w')"
    and "name_text d = None"
  shows "parseFile ET_parse iter inputFile w =
     (Some SystemExit,
      w'\<lparr>stdout := stdout w' @ [''Error: could not retrieve generic name data of drug'']\<rparr>)"
proof -
  have "parseDrug d (stdout w') = (Inl SystemExit, stdout w' @ [GENERIC_ERR])"
    using assms(4) by (simp add: parseDrug_cases)
  then have "drug_loop iter (d # post) w' = (Some SystemExit, w'\<lparr>stdout := stdout w' @ [GENERIC_ERR]\<rparr>)"
    by simp
  then have "drug_loop iter (pre @ d # post) w = (Some SystemExit, w'\<lparr>stdout := stdout w' @ [GENERIC_ERR]\<rparr>)"
    using assms(3) by (simp add: drug_loop_append)
  then show ?thesis
    using assms(1,2) by (simp add: parseFile_def GENERIC_ERR_def)
qed

text \<open>C6 on the records \<open>aspirin\<close>, \<open>nameless_drug\<close>, \<open>ibuprofen\<close>: the row of the first remains.\<close>

theorem C6_missing_generic_name_halts_witness:
  "(\<lambda>f. Some (drugbank_el [aspirin, nameless_drug, ibuprofen])) DATA_FILE
     = Some (drugbank_el [aspirin, nameless_drug, ibuprofen]) \<and>
   el_children (drugbank_el [aspirin, nameless_drug, ibuprofen]) = [aspirin] @ nameless_drug # [ibuprofen] \<and>
   drug_loop (\<lambda>s. s) [aspirin] \<lparr>stdout = [], out = [FIELD_NAMES]\<rparr>
     = (None, \<lparr>stdout = [], out = [FIELD_NAMES, [''bayer'', ''aspirin'']]\<rparr>) \<and>
   name_text nameless_drug = None \<and>
   main (\<lambda>f. Some (drugbank_el [aspirin, nameless_drug, ibuprofen])) (\<lambda>s. s)
     = (Some SystemExit,
        \<lparr>stdout = [''Error: could not retrieve generic name data of drug''],
         out = [FIELD_NAMES, [''bayer'', ''aspirin'']]\<rparr>)"
proof -
  let ?root = "drugbank_el [aspirin, nameless_drug, ibuprofen]"
  have h1: "(\<lambda>f. Some ?root) DATA_FILE = Some ?root"
    by simp
  have h2: "el_children ?root = [aspirin] @ nameless_drug # [ibuprofen]"
    by (simp add: drugbank_el_def)
  have h3: "drug_loop (\<lambda>s. s) [aspirin] \<lparr>stdout = [], out = [FIELD_NAMES]\<rparr>
     = (None, \<lparr>stdout = [], out = [FIELD_NAMES, [''bayer'', ''aspirin'']]\<rparr>)"
    by (simp add: run_defs sample_defs)
  have h4: "name_text nameless_drug = None"
    by (simp add: sample_defs)
  from C6_missing_generic_name_halts [OF h1 h2 h3 h4] h1 h2 h3 h4
  show ?thesis by (simp add: main_def)
qed

text \<open>
  C7: when \<^verbatim>\<open>ET.parse\<close> raises on the input path, because there is no such file or it is
  not well-formed XML, \<^verbatim>\<open>parseFile\<close> prints the diagnostic that ends with this path and
  exits, and the sink is as it was. In \<^verbatim>\<open>main\<close> the sink then holds the header and nothing
  else.
\<close>

theorem C7_unreadable_input_halts:
  assumes "ET_parse inputFile = None"
  shows "parseFile ET_parse iter inputFile w =
       (Some SystemExit,
        w\<lparr>stdout := stdout w @ [''Error: could not read in data from file '' @ inputFile]\<rparr>) \<and>
     (inputFile = DATA_FILE \<longrightarrow>
        main ET_parse iter =
          (Some SystemExit,
           \<lparr>stdout = [''Error: could not read in data from file rawData.xml''],
            out = [[''brand_name'', ''generic_name'']]\<rparr>))"
  using assms by (auto simp: parseFile_def main_def READ_ERR_def DATA_FILE_def FIELD_NAMES_def)

text \<open>C7 on a machine where no file can be parsed.\<close>

theorem C7_unreadable_input_halts_witness:
  "(\<lambda>f. None) DATA_FILE = (None :: element option) \<and>
   parseFile (\<lambda>f. None) (\<lambda>s. s) DATA_FILE \<lparr>stdout = [], out = [FIELD_NAMES]\<rparr> =
     (Some SystemExit,
      \<lparr>stdout = [''Error: could not read in data from file rawData.xml''],
       out = [FIELD_NAMES]\<rparr>) \<and>
   main (\<lambda>f. None) (\<lambda>s. s) =
     (Some SystemExit,
      \<lparr>stdout = [''Error: could not read in data from file rawData.xml''],
       out = [[''brand_name'', ''generic_name'']]\<rparr>)"
proof -
  have h: "(\<lambda>f. None) DATA_FILE = (None :: element option)"
    by simp
  from C7_unreadable_input_halts [OF h, where iter = "\<lambda>s. s"
      and w = "\<lparr>stdout = [], out = [FIELD_NAMES]\<rparr>"]
  show ?thesis by (simp add: DATA_FILE_def)
qed

text \<open>
  C8: when the input document has one record, with the generic name Aspirin and two
  products named Bayer and bayer, the run ends normally, prints nothing, and the sink holds
  the header \<^verbatim>\<open>brand_name,generic_name\<close> followed by the one row \<^verbatim>\<open>bayer,aspirin\<close>, whatever the
  order in which sets are gone through.
\<close>

theorem C8_aspirin_example:
  assumes "set_order iter"
    and "ET_parse DATA_FILE = Some root"
    and "el_children root = [d]"
    and "name_text d = Some ''Aspirin''"
    and "findE PRODUCTS d = Some c"
    and "map name_text (findall PRODUCT c) = [Some ''Bayer'', Some ''bayer'']"
  shows "main ET_parse iter =
     (None, \<lparr>stdout = [], out = [[''brand_name'', ''generic_name''], [''bayer'', ''aspirin'']]\<rparr>)"
proof -
  from assms(6) obtain p1 p2 where ps: "findall PRODUCT c = [p1, p2]"
    and n1: "name_text p1 = Some ''Bayer''" and n2: "name_text p2 = Some ''bayer''"
    by (auto simp: map_eq_Cons_conv)
  have b: "brands_of c = [''bayer'']"
    by (simp add: brands_of_def ps n1 n2 set_add_def lower_def lower_char_def)
  have "length (iter [''bayer'']) = 1" and "set (iter [''bayer'']) = {''bayer''}"
    by (simp_all add: set_order_length [OF assms(1)] set_order_set [OF assms(1)])
  then have i: "iter [''bayer''] = [''bayer'']"
    by (cases "iter [''bayer'']") auto
  have "parseDrug d [] = (Inr \<lparr>generic_name = ''aspirin'', brand_names = [''bayer'']\<rparr>, [])"
    using assms(4,5) by (simp add: parseDrug_cases ps n1 n2 b lower_def lower_char_def)
  then show ?thesis
    using assms(2,3) i
    by (simp add: main_def parseFile_def write_rows_eq FIELD_NAMES_def)
qed

text \<open>C8 on the document whose only record is \<open>aspirin\<close>, the set gone through backwards.\<close>

theorem C8_aspirin_example_witness:
  "set_order rev \<and>
   (\<lambda>f. Some (drugbank_el [aspirin])) DATA_FILE = Some (drugbank_el [aspirin]) \<and>
   el_children (drugbank_el [aspirin]) = [aspirin] \<and>
   name_text aspirin = Some ''Aspirin'' \<and>
   findE PRODUCTS aspirin
     = Some (products_el [product_el [name_el ''Bayer''], product_el [name_el ''bayer'']]) \<and>
   map name_text (findall PRODUCT
       (products_el [product_el [name_el ''Bayer''], product_el [name_el ''bayer'']]))
     = [Some ''Bayer'', Some ''bayer''] \<and>
   main (\<lambda>f. Some (drugbank_el [aspirin])) rev =
     (None, \<lparr>stdout = [], out = [[''brand_name'', ''generic_name''], [''bayer'', ''aspirin'']]\<rparr>)"
proof -
  let ?c = "products_el [product_el [name_el ''Bayer''], product_el [name_el ''bayer'']]"
  have h2: "(\<lambda>f. Some (drugbank_el [aspirin])) DATA_FILE = Some (drugbank_el [aspirin])"
    by simp
  have h3: "el_children (drugbank_el [aspirin]) = [aspirin]"
    by (simp add: drugbank_el_def)
  have h4: "name_text aspirin = Some ''Aspirin''"
    and h5: "findE PRODUCTS aspirin = Some ?c"
    and h6: "map name_text (findall PRODUCT ?c) = [Some ''Bayer'', Some ''bayer'']"
    by (simp_all add: sample_defs)
  from C8_aspirin_example [OF set_order_rev h2 h3 h4 h5 h6] set_order_rev h2 h3 h4 h5 h6
  show ?thesis by blast
qed

lemma READ_ERR_not_BRAND_ERR: "READ_ERR f \<noteq> BRAND_ERR"
  by (simp add: READ_ERR_def BRAND_ERR_def)

text \<open>
  C9: the body of the second \<^verbatim>\<open>try\<close> of \<^verbatim>\<open>parseDrug\<close> never raises \<^verbatim>\<open>KeyError\<close>, neither in the
  loop over the products nor before it. So \<^verbatim>\<open>parseDrug\<close> never prints the diagnostic for
  the brand names, and no run of \<^verbatim>\<open>main\<close> has this line in its output.
\<close>

theorem C9_keyerror_handler_dead:
  "brand_loop ps acc \<noteq> Inl KeyError \<and>
   brand_try drugData \<noteq> Inl KeyError \<and>
   snd (parseDrug drugData printed) \<noteq> printed @ [BRAND_ERR] \<and>
   BRAND_ERR \<notin> set (stdout (snd (main ET_parse iter)))"
proof -
  have a: "brand_loop ps acc \<noteq> Inl KeyError" for ps acc
    by (simp add: brand_loop_eq)
  have b: "brand_try drugData \<noteq> Inl KeyError"
    by (cases "findE PRODUCTS drugData") (simp_all add: brand_try_def a)
  have ne: "GENERIC_ERR \<noteq> BRAND_ERR"
    by (simp add: GENERIC_ERR_def BRAND_ERR_def)
  have c: "snd (parseDrug drugData printed) \<noteq> printed @ [BRAND_ERR]"
    using ne by (simp add: parseDrug_cases split: option.splits)
  have d: "BRAND_ERR \<notin> set (stdout (snd (main ET_parse iter)))"
  proof (cases "ET_parse DATA_FILE")
    case None
    then show ?thesis
      using READ_ERR_not_BRAND_ERR [of DATA_FILE] by (auto simp: main_def parseFile_def)
  next
    case (Some root)
    have "set (stdout (snd (drug_loop iter (el_children root) \<lparr>stdout = [], out = [FIELD_NAMES]\<rparr>)))
        \<subseteq> {GENERIC_ERR}"
      using drug_loop_stdout [of iter "el_children root" "\<lparr>stdout = [], out = [FIELD_NAMES]\<rparr>"]
      by simp
    then show ?thesis
      using Some ne by (auto simp: main_def parseFile_def)
  qed
  from a b c d show ?thesis by simp
qed

text \<open>
  C10: two runs of \<^verbatim>\<open>parseFile\<close> on the same document and the same sink, each with its own
  order of going through sets, end the same way, print the same lines and leave sinks
  with the same rows counted with multiplicity. In each run the rows written are those of
  the first records of the document, record after record in document order, the rows of
  one record together and in some order.
\<close>

theorem C10_deterministic_up_to_order:
  assumes "set_order iter1"
    and "set_order iter2"
  shows "fst (parseFile ET_parse iter1 inputFile w) = fst (parseFile ET_parse iter2 inputFile w) \<and>
     stdout (snd (parseFile ET_parse iter1 inputFile w))
       = stdout (snd (parseFile ET_parse iter2 inputFile w)) \<and>
     mset (out (snd (parseFile ET_parse iter1 inputFile w)))
       = mset (out (snd (parseFile ET_parse iter2 inputFile w))) \<and>
     (\<exists>groups1 groups2.
        out (snd (parseFile ET_parse iter1 inputFile w)) = out w @ concat groups1 \<and>
        out (snd (parseFile ET_parse iter2 inputFile w)) = out w @ concat groups2 \<and>
        list_all2 (\<lambda>grp d. mset grp = mset (drug_rows d)) groups1
          (take (length groups1) (records ET_parse inputFile)) \<and>
        list_all2 (\<lambda>grp d. mset grp = mset (drug_rows d)) groups2
          (take (length groups2) (records ET_parse inputFile)))"
proof (cases "ET_parse inputFile")
  case None
  have pf: "parseFile ET_parse it inputFile w
      = (Some SystemExit, w\<lparr>stdout := stdout w @ [READ_ERR inputFile]\<rparr>)" for it
    using None by (simp add: parseFile_def)
  have "\<exists>groups1 groups2.
        out (snd (parseFile ET_parse iter1 inputFile w)) = out w @ concat groups1 \<and>
        out (snd (parseFile ET_parse iter2 inputFile w)) = out w @ concat groups2 \<and>
        list_all2 (\<lambda>grp d. mset grp = mset (drug_rows d)) groups1
          (take (length groups1) (records ET_parse inputFile)) \<and>
        list_all2 (\<lambda>grp d. mset grp = mset (drug_rows d)) groups2
          (take (length groups2) (records ET_parse inputFile))"
    by (intro exI [of _ "[]"]) (simp add: pf)
  then show ?thesis
    by (simp add: pf)
next
  case (Some root)
  let ?ds = "el_children root"
  have pf: "parseFile ET_parse it inputFile w = drug_loop it ?ds w" for it
    using Some by (simp add: parseFile_def)
  have rec: "records ET_parse inputFile = ?ds"
    using Some by (simp add: records_def)
  from drug_loop_grouped [OF assms(1), of ?ds w] obtain groups1 where
    g1: "out (snd (drug_loop iter1 ?ds w)) = out w @ concat groups1"
      "list_all2 (\<lambda>grp d. mset grp = mset (drug_rows d)) groups1 (take (length groups1) ?ds)"
    by blast
  from drug_loop_grouped [OF assms(2), of ?ds w] obtain groups2 where
    g2: "out (snd (drug_loop iter2 ?ds w)) = out w @ concat groups2"
      "list_all2 (\<lambda>grp d. mset grp = mset (drug_rows d)) groups2 (take (length groups2) ?ds)"
    by blast
  from g1 g2 have grouped: "\<exists>groups1 groups2.
        out (snd (drug_loop iter1 ?ds w)) = out w @ concat groups1 \<and>
        out (snd (drug_loop iter2 ?ds w)) = out w @ concat groups2 \<and>
        list_all2 (\<lambda>grp d. mset grp = mset (drug_rows d)) groups1 (take (length groups1) ?ds) \<and>
        list_all2 (\<lambda>grp d. mset grp = mset (drug_rows d)) groups2 (take (length groups2) ?ds)"
    by blast
  from drug_loop_deterministic [OF assms, of w w ?ds] grouped
  show ?thesis by (simp add: pf rec)
qed

text \<open>C10 on the records \<open>ibuprofen\<close> and \<open>aspirin\<close>, sets gone through forwards in one run
  and backwards in the other: the two rows of \<open>ibuprofen\<close> change places.\<close>

theorem C10_deterministic_up_to_order_witness:
  "set_order (\<lambda>s. s) \<and> set_order rev \<and>
   parseFile (\<lambda>f. Some (drugbank_el [ibuprofen, aspirin])) (\<lambda>s. s) DATA_FILE
       \<lparr>stdout = [], out = [FIELD_NAMES]\<rparr>
     = (None, \<lparr>stdout = [], out = [FIELD_NAMES, [''advil'', ''ibuprofen''],
          [''motrin'', ''ibuprofen''], [''bayer'', ''aspirin'']]\<rparr>) \<and>
   parseFile (\<lambda>f. Some (drugbank_el [ibuprofen, aspirin])) rev DATA_FILE
       \<lparr>stdout = [], out = [FIELD_NAMES]\<rparr>
     = (None, \<lparr>stdout = [], out = [FIELD_NAMES, [''motrin'', ''ibuprofen''],
          [''advil'', ''ibuprofen''], [''bayer'', ''aspirin'']]\<rparr>) \<and>
   mset [FIELD_NAMES, [''advil'', ''ibuprofen''], [''motrin'', ''ibuprofen''], [''bayer'', ''aspirin'']]
     = mset [FIELD_NAMES, [''motrin'', ''ibuprofen''], [''advil'', ''ibuprofen''], [''bayer'', ''aspirin'']]"
proof -
  let ?E = "\<lambda>f :: string. Some (drugbank_el [ibuprofen, aspirin])"
  let ?w = "\<lparr>stdout = [], out = [FIELD_NAMES]\<rparr>"
  have r1: "parseFile ?E (\<lambda>s. s) DATA_FILE ?w
     = (None, \<lparr>stdout = [], out = [FIELD_NAMES, [''advil'', ''ibuprofen''],
          [''motrin'', ''ibuprofen''], [''bayer'', ''aspirin'']]\<rparr>)"
    by (simp add: run_defs sample_defs)
  have r2: "parseFile ?E rev DATA_FILE ?w
     = (None, \<lparr>stdout = [], out = [FIELD_NAMES, [''motrin'', ''ibuprofen''],
          [''advil'', ''ibuprofen''], [''bayer'', ''aspirin'']]\<rparr>)"
    by (simp add: run_defs sample_defs)
  from C10_deterministic_up_to_order [OF set_order_id set_order_rev,
      where ET_parse = ?E and inputFile = DATA_FILE and w = ?w]
  have "mset (out (snd (parseFile ?E (\<lambda>s. s) DATA_FILE ?w)))
      = mset (out (snd (parseFile ?E rev DATA_FILE ?w)))"
    by blast
  then show ?thesis
    using set_order_id set_order_rev r1 r2 by simp
qed

end
